theory Spec2Isabelle
  imports Main "HOL-Library.Word" "HOL-Library.Sublist"
begin

section \<open>Common utilities of hailo\_rpi\_common.py\<close>

text \<open>
  The module holds host probes (\<open>detect_pkg_installed\<close>, \<open>detect_hailo_arch\<close>), the
  caps accessor \<open>get_caps_from_pad\<close> and the conversion of a mapped GStreamer buffer
  into numpy arrays (\<open>get_numpy_from_buffer\<close> with its three format handlers).
  Python exceptions are values of \<open>exn\<close>; a function that may raise returns
  \<open>exn + 'a\<close> with \<open>Inl\<close> for the exception.
\<close>

datatype exn =
    ValueError string
  | TypeError string
  | CalledProcessError int
  | FileNotFoundError string
  | UnicodeDecodeError

subsection \<open>Memory: the frame buffer and the arrays numpy owns\<close>

text \<open>
  Bytes live in a store of regions. \<open>Frame\<close> is the memory of the GStreamer buffer,
  owned by the framework; \<open>Owned k\<close> is the \<open>k\<close>-th block numpy allocated for an
  array of its own. The world also records whether \<open>buffer.map\<close> will succeed and
  the map and unmap calls made on the buffer so far, oldest first.
\<close>

type_synonym byte = "8 word"

datatype region = Frame | Owned nat

datatype buffer_op = MapRead | Unmap

record world =
  frame_mem :: "byte list"
  mappable :: bool
  ops :: "buffer_op list"
  owned :: "byte list list"

definition region_bytes :: "world \<Rightarrow> region \<Rightarrow> byte list" where
  "region_bytes w r =
     (case r of
        Frame \<Rightarrow> frame_mem w
      | Owned k \<Rightarrow> (if k < length (owned w) then owned w ! k else []))"

text \<open>
  \<open>map_info.data\<close> and its slices are windows into a region: nothing is copied when
  such an object is made or sliced. (The plain introspection binding hands out an immutable
  \<open>bytes\<close> copy instead of a window; the window is the case in which the arrays could
  alias the frame.)
\<close>

record mem_view =
  region :: region
  start :: nat
  extent :: nat

record map_info =
  data :: mem_view

text \<open>
  Python slicing with one bound, \<open>v[:stop]\<close> and \<open>v[start:]\<close>: a negative bound
  counts from the end, and every bound is clamped to the length.
\<close>

definition clamp_index :: "nat \<Rightarrow> int \<Rightarrow> nat" where
  "clamp_index n i = (if i < 0 then nat (max 0 (int n + i)) else min (nat i) n)"

definition slice_upto :: "mem_view \<Rightarrow> int \<Rightarrow> mem_view" where
  "slice_upto v stop = v\<lparr>extent := clamp_index (extent v) stop\<rparr>"

definition slice_from :: "mem_view \<Rightarrow> int \<Rightarrow> mem_view" where
  "slice_from v i =
     v\<lparr>start := start v + clamp_index (extent v) i,
       extent := extent v - clamp_index (extent v) i\<rparr>"

subsection \<open>numpy arrays\<close>

text \<open>
  An array is a shape, an element type and the place of its first byte; the elements
  follow in row-major (C) order, \<open>itemsize\<close> bytes each.

  \<open>np.ndarray(shape=s, dtype=t, buffer=v)\<close>, for a shape of two or more
  dimensions, makes an array over the bytes of \<open>v\<close> without copying. numpy
  holds dimensions and byte counts in signed 64-bit integers (\<open>npy_intp\<close>), and
  proceeds in this order:
  \<^item> a dimension that does not fit raises ValueError;
  \<^item> the size test against the buffer multiplies the dimensions with wrap-around and
    raises TypeError when the buffer has fewer bytes;
  \<^item> the array constructor then walks the dimensions: it skips a zero, raises ValueError
    at a negative one, and raises ValueError when the byte count of the non-zero
    dimensions overflows.
  \<open>copy()\<close> allocates a fresh block holding the bytes of the array.
\<close>

datatype dtype = UInt8 | UInt16 | Float32 | Float64

fun itemsize :: "dtype \<Rightarrow> int" where
  "itemsize UInt8 = 1"
| "itemsize UInt16 = 2"
| "itemsize Float32 = 4"
| "itemsize Float64 = 8"

record ndarray =
  shape :: "int list"
  dtype :: dtype
  base :: region
  offset :: nat

definition intp_max :: int where
  "intp_max = 2 ^ 63 - 1"

definition fits_intp :: "int \<Rightarrow> bool" where
  "fits_intp x = (- (2 ^ 63) \<le> x \<and> x \<le> intp_max)"

definition wrap_intp :: "int \<Rightarrow> int" where
  "wrap_intp x = (x + 2 ^ 63) mod 2 ^ 64 - 2 ^ 63"

fun array_nbytes :: "int \<Rightarrow> int list \<Rightarrow> exn + int" where
  "array_nbytes nbytes [] = Inr nbytes"
| "array_nbytes nbytes (d # ds) =
     (if d = 0 then array_nbytes nbytes ds
      else if d < 0 then Inl (ValueError ''negative dimensions are not allowed'')
      else if intp_max < nbytes * d then Inl (ValueError ''array is too big'')
      else array_nbytes (nbytes * d) ds)"

definition np_ndarray :: "int list \<Rightarrow> dtype \<Rightarrow> mem_view \<Rightarrow> exn + ndarray" where
  "np_ndarray shp dt buf =
     (if list_ex (\<lambda>d. \<not> fits_intp d) shp
        then Inl (ValueError ''Maximum allowed dimension exceeded'')
      else if int (extent buf) < wrap_intp (itemsize dt * wrap_intp (prod_list shp))
        then Inl (TypeError ''buffer is too small for requested array'')
      else (case array_nbytes (itemsize dt) shp of
              Inl e \<Rightarrow> Inl e
            | Inr n \<Rightarrow>
                Inr \<lparr>shape = shp, dtype = dt, base = region buf, offset = start buf\<rparr>))"

text \<open>
  \<open>array_data\<close> is the bytes of all elements of an array, in order; for
  \<open>uint8\<close> a byte is an element.
\<close>

definition array_data :: "world \<Rightarrow> ndarray \<Rightarrow> byte list" where
  "array_data w a =
     take (nat (itemsize (dtype a) * prod_list (shape a)))
       (drop (offset a) (region_bytes w (base a)))"

definition np_copy :: "world \<Rightarrow> ndarray \<Rightarrow> ndarray \<times> world" where
  "np_copy w a =
     (a\<lparr>base := Owned (length (owned w)), offset := 0\<rparr>,
      w\<lparr>owned := owned w @ [array_data w a]\<rparr>)"

text \<open>
  Indexing \<open>a[i\<^sub>0, ..., i\<^sub>k]\<close> with non-negative indices: the bytes of the
  sub-array at that position, or \<open>None\<close> for numpy's IndexError.
\<close>

fun flat_index :: "int list \<Rightarrow> nat list \<Rightarrow> nat option" where
  "flat_index shp [] = Some 0"
| "flat_index [] (i # is) = None"
| "flat_index (d # ds) (i # is) =
     (if int i < d
        then (case flat_index ds is of
                None \<Rightarrow> None
              | Some r \<Rightarrow> Some (i * nat (prod_list ds) + r))
      else None)"

definition getitem :: "world \<Rightarrow> ndarray \<Rightarrow> nat list \<Rightarrow> byte list option" where
  "getitem w a idx =
     (case flat_index (shape a) idx of
        None \<Rightarrow> None
      | Some k \<Rightarrow>
          Some (take (nat (itemsize (dtype a) * prod_list (drop (length idx) (shape a))))
                  (drop (offset a + nat (itemsize (dtype a)) * k)
                     (region_bytes w (base a)))))"

subsection \<open>The GStreamer buffer\<close>

text \<open>
  \<open>buffer.map(Gst.MapFlags.READ)\<close> returns the success flag and the map info; on
  success the info's data spans the whole frame memory. \<open>buffer.unmap\<close> releases
  the mapping. Both calls are recorded.
\<close>

definition buffer_map :: "world \<Rightarrow> (bool \<times> map_info) \<times> world" where
  "buffer_map w =
     ((mappable w,
       \<lparr>data = \<lparr>region = Frame, start = 0,
                extent = (if mappable w then length (frame_mem w) else 0)\<rparr>\<rparr>),
      w\<lparr>ops := ops w @ [MapRead]\<rparr>)"

definition buffer_unmap :: "world \<Rightarrow> map_info \<Rightarrow> world" where
  "buffer_unmap w mi = w\<lparr>ops := ops w @ [Unmap]\<rparr>"

subsection \<open>Format handlers and get\_numpy\_from\_buffer\<close>

datatype decoded = Single ndarray | Pair ndarray ndarray

type_synonym handler = "map_info \<Rightarrow> int \<Rightarrow> int \<Rightarrow> world \<Rightarrow> (exn + decoded) \<times> world"

definition handle_rgb :: handler where
  "handle_rgb mi width height w =
     (case np_ndarray [height, width, 3] UInt8 (data mi) of
        Inl e \<Rightarrow> (Inl e, w)
      | Inr a \<Rightarrow> (case np_copy w a of (c, w') \<Rightarrow> (Inr (Single c), w')))"

definition handle_nv12 :: handler where
  "handle_nv12 mi width height w =
     (let y_plane_size = width * height;
          uv_plane_size = width * height div 2
      in case np_ndarray [height, width] UInt8 (slice_upto (data mi) y_plane_size) of
           Inl e \<Rightarrow> (Inl e, w)
         | Inr ya \<Rightarrow>
             (case np_copy w ya of
                (y_plane, w1) \<Rightarrow>
                  (case np_ndarray [height div 2, width div 2, 2] UInt8
                          (slice_from (data mi) y_plane_size) of
                     Inl e \<Rightarrow> (Inl e, w1)
                   | Inr uva \<Rightarrow>
                       (case np_copy w1 uva of
                          (uv_plane, w2) \<Rightarrow> (Inr (Pair y_plane uv_plane), w2)))))"

definition handle_yuyv :: handler where
  "handle_yuyv mi width height w =
     (case np_ndarray [height, width, 2] UInt8 (data mi) of
        Inl e \<Rightarrow> (Inl e, w)
      | Inr a \<Rightarrow> (case np_copy w a of (c, w') \<Rightarrow> (Inr (Single c), w')))"

definition FORMAT_HANDLERS :: "string \<Rightarrow> handler option" where
  "FORMAT_HANDLERS =
     map_of [(''RGB'', handle_rgb), (''NV12'', handle_nv12), (''YUYV'', handle_yuyv)]"

text \<open>
  The body after a successful map is a \<open>try\<close> with a \<open>finally\<close> clause: whatever
  the body yields, a value or an exception, \<open>buffer.unmap\<close> runs before it leaves.
\<close>

definition get_numpy_from_buffer ::
  "world \<Rightarrow> string \<Rightarrow> int \<Rightarrow> int \<Rightarrow> (exn + decoded) \<times> world" where
  "get_numpy_from_buffer w format width height =
     (case buffer_map w of
        ((success, mi), w1) \<Rightarrow>
          if \<not> success then (Inl (ValueError ''Buffer mapping failed''), w1)
          else
            (case (case FORMAT_HANDLERS format of
                     None \<Rightarrow> (Inl (ValueError (''Unsupported format: '' @ format)), w1)
                   | Some handler \<Rightarrow> handler mi width height w1) of
               (r, w2) \<Rightarrow> (r, buffer_unmap w2 mi)))"

subsection \<open>Substring test and line splitting\<close>

text \<open>
  \<open>str_in p s\<close> is Python's \<open>p in s\<close> on strings; \<open>split_nl s\<close> is
  \<open>s.split('\n')\<close>, which always yields at least one piece.
\<close>

fun str_in :: "string \<Rightarrow> string \<Rightarrow> bool" where
  "str_in p [] = (p = [])"
| "str_in p (c # cs) = (prefix p (c # cs) \<or> str_in p cs)"

fun split_nl :: "string \<Rightarrow> string list" where
  "split_nl [] = [[]]"
| "split_nl (c # cs) =
     (if c = CHR 0x0A then [] # split_nl cs
      else (case split_nl cs of
              [] \<Rightarrow> [[c]]
            | l # ls \<Rightarrow> (c # l) # ls))"

subsection \<open>Host probes\<close>

text \<open>
  The host answers a command line either by failing to start the process (the
  executable is missing) or by a finished process with its exit status and the bytes it
  wrote to standard output and standard error. \<open>subprocess.check_output\<close> raises
  FileNotFoundError in the first case and CalledProcessError on a non-zero exit status.
\<close>

datatype proc_outcome = SpawnFailed string | Exited int string string

type_synonym host = "string list \<Rightarrow> proc_outcome"

record completed_process =
  returncode :: int
  stdout :: string
  stderr :: string

definition check_output :: "host \<Rightarrow> string list \<Rightarrow> exn + string" where
  "check_output host argv =
     (case host argv of
        SpawnFailed msg \<Rightarrow> Inl (FileNotFoundError msg)
      | Exited rc out err \<Rightarrow> (if rc \<noteq> 0 then Inl (CalledProcessError rc) else Inr out))"

text \<open>
  With \<open>text=True\<close> the captured bytes are decoded with the locale's encoding, UTF-8
  on the hosts the module is written for, and strictly: a byte sequence that is not
  UTF-8 raises UnicodeDecodeError. The decoded text is kept here as its UTF-8 bytes; the
  patterns searched for and the line separator are ASCII, which never occurs inside a
  multi-byte sequence. \<open>utf8_scan k lo hi\<close> expects \<open>k\<close> more continuation
  bytes, the next of them between \<open>lo\<close> and \<open>hi\<close>. After decoding, every
  pair CR LF and every remaining CR becomes LF.
\<close>

fun utf8_scan :: "nat \<Rightarrow> nat \<Rightarrow> nat \<Rightarrow> string \<Rightarrow> bool" where
  "utf8_scan k lo hi [] = (k = 0)"
| "utf8_scan k lo hi (c # cs) =
     (let b = (of_char c :: nat) in
      if k = 0 then
        (if b < 0x80 then utf8_scan 0 0x80 0xBF cs
         else if 0xC2 \<le> b \<and> b \<le> 0xDF then utf8_scan 1 0x80 0xBF cs
         else if b = 0xE0 then utf8_scan 2 0xA0 0xBF cs
         else if b = 0xED then utf8_scan 2 0x80 0x9F cs
         else if 0xE1 \<le> b \<and> b \<le> 0xEF then utf8_scan 2 0x80 0xBF cs
         else if b = 0xF0 then utf8_scan 3 0x90 0xBF cs
         else if 0xF1 \<le> b \<and> b \<le> 0xF3 then utf8_scan 3 0x80 0xBF cs
         else if b = 0xF4 then utf8_scan 3 0x80 0x8F cs
         else False)
      else lo \<le> b \<and> b \<le> hi \<and> utf8_scan (k - 1) 0x80 0xBF cs)"

definition utf8_valid :: "string \<Rightarrow> bool" where
  "utf8_valid bs = utf8_scan 0 0x80 0xBF bs"

fun universal_newlines :: "string \<Rightarrow> string" where
  "universal_newlines [] = []"
| "universal_newlines [c] = [if c = CHR 0x0D then CHR 0x0A else c]"
| "universal_newlines (c # d # ds) =
     (if c = CHR 0x0D \<and> d = CHR 0x0A then CHR 0x0A # universal_newlines ds
      else if c = CHR 0x0D then CHR 0x0A # universal_newlines (d # ds)
      else c # universal_newlines (d # ds))"

definition translate_newlines :: "string \<Rightarrow> exn + string" where
  "translate_newlines raw =
     (if utf8_valid raw then Inr (universal_newlines raw) else Inl UnicodeDecodeError)"

text \<open>
  \<open>subprocess.run(argv, capture_output=True, text=True)\<close>: no exception for a
  non-zero exit status; standard output is decoded first, then standard error.
\<close>

definition subprocess_run :: "host \<Rightarrow> string list \<Rightarrow> exn + completed_process" where
  "subprocess_run host argv =
     (case host argv of
        SpawnFailed msg \<Rightarrow> Inl (FileNotFoundError msg)
      | Exited rc out err \<Rightarrow>
          (case translate_newlines out of
             Inl e \<Rightarrow> Inl e
           | Inr out_text \<Rightarrow>
               (case translate_newlines err of
                  Inl e \<Rightarrow> Inl e
                | Inr err_text \<Rightarrow>
                    Inr \<lparr>returncode = rc, stdout = out_text, stderr = err_text\<rparr>)))"

text \<open>
  \<open>detect_pkg_installed\<close>: the \<open>except\<close> clause names CalledProcessError only, so
  any other exception of the call leaves the function.
\<close>

definition detect_pkg_installed :: "host \<Rightarrow> string \<Rightarrow> exn + bool" where
  "detect_pkg_installed host pkg_name =
     (case check_output host [''dpkg'', ''-s'', pkg_name] of
        Inr out \<Rightarrow> Inr True
      | Inl (CalledProcessError rc) \<Rightarrow> Inr False
      | Inl e \<Rightarrow> Inl e)"

text \<open>
  \<open>detect_hailo_arch\<close> prints a diagnostic on each failing path; the printed line is
  recorded by its kind and payload. The loop over the output lines returns at the first
  line that names an architecture.
\<close>

datatype diagnostic =
    ErrorRunning string
  | CouldNotDetermine
  | ErrorOccurred exn

fun scan_lines :: "string list \<Rightarrow> string option" where
  "scan_lines [] = None"
| "scan_lines (line # rest) =
     (if str_in ''Device Architecture'' line
        then (if str_in ''HAILO8L'' line then Some ''hailo8l''
              else if str_in ''HAILO8'' line then Some ''hailo8''
              else scan_lines rest)
      else scan_lines rest)"

definition detect_hailo_arch_try :: "host \<Rightarrow> exn + diagnostic list \<times> string option" where
  "detect_hailo_arch_try host =
     (case subprocess_run host [''hailortcli'', ''fw-control'', ''identify''] of
        Inl e \<Rightarrow> Inl e
      | Inr result \<Rightarrow>
          if returncode result \<noteq> 0 then Inr ([ErrorRunning (stderr result)], None)
          else (case scan_lines (split_nl (stdout result)) of
                  Some arch \<Rightarrow> Inr ([], Some arch)
                | None \<Rightarrow> Inr ([CouldNotDetermine], None)))"

definition detect_hailo_arch :: "host \<Rightarrow> exn + diagnostic list \<times> string option" where
  "detect_hailo_arch host =
     (case detect_hailo_arch_try host of
        Inl e \<Rightarrow> Inr ([ErrorOccurred e], None)
      | Inr r \<Rightarrow> Inr r)"

subsection \<open>Negotiated caps of a pad\<close>

text \<open>
  Python values the accessor can return. A pad has current caps or \<open>None\<close>. The
  current caps are those of the pad's sticky CAPS event, which GStreamer builds from fixed
  caps only: they hold exactly one structure, at index 0, and \<open>get_structure\<close>
  yields \<open>None\<close> for any other index. Such a caps object is true in
  \<open>if caps:\<close>, as a plain wrapper object and also where the binding gives caps a
  length (here 1); a structure object is always true. \<open>get_value\<close> yields
  \<open>None\<close> for a field the structure lacks.
\<close>

datatype pyval = PyNone | PyStr string | PyInt int | PyTuple "pyval list"

record gst_structure =
  entries :: "(string \<times> pyval) list"

record gst_caps =
  structure0 :: gst_structure

record gst_pad =
  current_caps :: "gst_caps option"

definition get_value :: "gst_structure \<Rightarrow> string \<Rightarrow> pyval" where
  "get_value s name = (case map_of (entries s) name of None \<Rightarrow> PyNone | Some v \<Rightarrow> v)"

definition get_structure :: "gst_caps \<Rightarrow> nat \<Rightarrow> gst_structure option" where
  "get_structure c i = (if i = 0 then Some (structure0 c) else None)"

definition get_current_caps :: "gst_pad \<Rightarrow> gst_caps option" where
  "get_current_caps pad = current_caps pad"

text \<open>
  The inner \<open>if structure:\<close> has no \<open>else\<close>: were there no structure, the
  function would end without a \<open>return\<close> and yield a bare \<open>None\<close>.
\<close>

definition get_caps_from_pad :: "gst_pad \<Rightarrow> pyval" where
  "get_caps_from_pad pad =
     (case get_current_caps pad of
        None \<Rightarrow> PyTuple [PyNone, PyNone, PyNone]
      | Some caps \<Rightarrow>
          (case get_structure caps 0 of
             Some structure \<Rightarrow>
               PyTuple [get_value structure ''format'',
                        get_value structure ''width'',
                        get_value structure ''height'']
           | None \<Rightarrow> PyNone))"

subsection \<open>Arrays of a result\<close>

text \<open>
  A decoded frame is one array or a pair of arrays; \<open>arrays\<close> lists them.
\<close>

definition arrays :: "decoded \<Rightarrow> ndarray list" where
  "arrays r = (case r of Single a \<Rightarrow> [a] | Pair y uv \<Rightarrow> [y, uv])"

section \<open>Sample inputs\<close>

text \<open>
  A mappable buffer of 24 bytes holding 0..23, and one of 12 bytes (8 luma bytes followed
  by 4 chroma bytes); a host without the probed executables, a host with a Hailo-8 and a
  Hailo-8L device, and one with a single Hailo-8L; a pad without caps and a pad
  negotiated to RGB 4x2; a host whose output has a lone carriage return inside the
  architecture line, and one whose output holds a byte that is not UTF-8.
\<close>

definition frame24 :: world where
  "frame24 =
     \<lparr>frame_mem = [0, 1, 2, 3, 4, 5, 6, 7, 8, 9, 10, 11, 12, 13, 14, 15, 16, 17, 18, 19,
                   20, 21, 22, 23],
      mappable = True, ops = [], owned = []\<rparr>"

definition frame12 :: world where
  "frame12 =
     \<lparr>frame_mem = [10, 11, 12, 13, 14, 15, 16, 17, 200, 201, 202, 203],
      mappable = True, ops = [], owned = []\<rparr>"

definition no_exec_host :: host where
  "no_exec_host argv = SpawnFailed ''[Errno 2] No such file or directory''"

definition two_device_host :: host where
  "two_device_host argv =
     Exited 0 (''Device Architecture: HAILO8'' @ [CHR 0x0A] @ ''Device Architecture: HAILO8L'') []"

definition hailo8l_host :: host where
  "hailo8l_host argv =
     Exited 0 (''Board Name: Hailo-8'' @ [CHR 0x0A] @ ''Device Architecture: HAILO8L'') []"

definition no_caps_pad :: gst_pad where
  "no_caps_pad = \<lparr>current_caps = None\<rparr>"

definition rgb_pad :: gst_pad where
  "rgb_pad =
     \<lparr>current_caps = Some \<lparr>structure0 =
        \<lparr>entries = [(''format'', PyStr ''RGB''), (''width'', PyInt 4),
                   (''height'', PyInt 2)]\<rparr>\<rparr>\<rparr>"

definition cr_host :: host where
  "cr_host argv =
     Exited 0 (''Device Architecture:'' @ [CHR 0x0D] @ ''HAILO8L'' @ [CHR 0x0A]) []"

definition bad_byte_host :: host where
  "bad_byte_host argv =
     Exited 0 (''Device Architecture: HAILO8L'' @ [CHR 0xFF, CHR 0x0A]) []"

section \<open>Properties of the buffer conversion\<close>

lemmas decode_defs =
  get_numpy_from_buffer_def buffer_map_def buffer_unmap_def FORMAT_HANDLERS_def
  handle_rgb_def handle_nv12_def handle_yuyv_def np_ndarray_def np_copy_def
  array_data_def region_bytes_def slice_upto_def slice_from_def clamp_index_def
  fits_intp_def intp_max_def wrap_intp_def

subsection \<open>The handlers leave the call record alone\<close>

lemma handle_rgb_frame:
  "ops (snd (handle_rgb mi wd ht w)) = ops w"
  by (simp add: handle_rgb_def np_copy_def split: sum.splits)

lemma handle_yuyv_frame:
  "ops (snd (handle_yuyv mi wd ht w)) = ops w"
  by (simp add: handle_yuyv_def np_copy_def split: sum.splits)

lemma handle_nv12_frame:
  "ops (snd (handle_nv12 mi wd ht w)) = ops w"
  by (simp add: handle_nv12_def np_copy_def Let_def split: sum.splits)

lemma FORMAT_HANDLERS_cases:
  "FORMAT_HANDLERS f = Some h \<Longrightarrow>
     (f = ''RGB'' \<and> h = handle_rgb) \<or> (f = ''NV12'' \<and> h = handle_nv12) \<or>
     (f = ''YUYV'' \<and> h = handle_yuyv)"
  by (auto simp: FORMAT_HANDLERS_def split: if_splits)

lemma FORMAT_HANDLERS_None:
  "FORMAT_HANDLERS f = None \<longleftrightarrow> f \<notin> {''RGB'', ''NV12'', ''YUYV''}"
  by (auto simp: FORMAT_HANDLERS_def)

lemma handler_ops:
  "FORMAT_HANDLERS f = Some h \<Longrightarrow> ops (snd (h mi wd ht w)) = ops w"
  by (auto dest!: FORMAT_HANDLERS_cases simp: handle_rgb_frame handle_nv12_frame handle_yuyv_frame)

subsection \<open>Array construction within the 64-bit bounds\<close>

lemma wrap_intp_id: "0 \<le> x \<Longrightarrow> x \<le> intp_max \<Longrightarrow> wrap_intp x = x"
  by (simp add: wrap_intp_def intp_max_def)

lemma nonzero_prod_ge_1:
  "\<forall>d\<in>set ds. (0::int) \<le> d \<Longrightarrow> 1 \<le> prod_list (map (\<lambda>d. if d = 0 then 1 else d) ds)"
proof (induction ds)
  case Nil
  show ?case by simp
next
  case (Cons d ds)
  then have p: "1 \<le> prod_list (map (\<lambda>d. if d = 0 then 1 else d) ds)" by simp
  let ?P = "prod_list (map (\<lambda>d. if d = 0 then 1 else d) ds)"
  show ?case
  proof (cases "d = 0")
    case True
    with p show ?thesis by simp
  next
    case False
    with Cons.prems have d: "1 \<le> d" by simp
    with p have "0 \<le> d * (?P - 1)" by simp
    then have "d \<le> d * ?P" by (simp add: algebra_simps)
    with d have "1 \<le> d * ?P" by linarith
    with False show ?thesis by simp
  qed
qed

lemma array_nbytes_ok:
  assumes "0 < n" and "\<forall>d\<in>set ds. 0 \<le> d"
    and "n * prod_list (map (\<lambda>d. if d = 0 then 1 else d) ds) \<le> intp_max"
  shows "\<exists>m. array_nbytes n ds = Inr m"
  using assms
proof (induction ds arbitrary: n)
  case Nil
  show ?case by simp
next
  case (Cons d ds)
  let ?P = "prod_list (map (\<lambda>d. if d = 0 then 1 else d) ds)"
  from Cons.prems(2) have nn: "\<forall>d\<in>set ds. 0 \<le> d" and d0: "0 \<le> d" by simp_all
  have P: "1 \<le> ?P" by (rule nonzero_prod_ge_1 [OF nn])
  show ?case
  proof (cases "d = 0")
    case True
    with Cons.prems(3) have "n * ?P \<le> intp_max" by simp
    from Cons.IH [OF Cons.prems(1) nn this] True show ?thesis by simp
  next
    case False
    with d0 have dpos: "0 < d" by simp
    with Cons.prems(1) have ndpos: "0 < n * d" by simp
    from Cons.prems(3) False have bound: "n * d * ?P \<le> intp_max" by (simp add: mult.assoc)
    have "n * d * 1 \<le> n * d * ?P"
      by (rule mult_left_mono [OF P]) (use ndpos in simp)
    with bound have nd: "n * d \<le> intp_max" by simp
    from Cons.IH [OF ndpos nn bound] False dpos nd show ?thesis by simp
  qed
qed

lemma prod_list_nonneg_int: "\<forall>d\<in>set ds. (0::int) \<le> d \<Longrightarrow> 0 \<le> prod_list ds"
  by (induction ds) simp_all

lemma np_ndarray_ok:
  assumes dims: "\<forall>d\<in>set shp. 0 \<le> d \<and> d \<le> intp_max"
    and fit: "prod_list shp \<le> int (extent buf)"
    and ext: "int (extent buf) \<le> intp_max"
    and nb: "prod_list (map (\<lambda>d. if d = 0 then 1 else d) shp) \<le> intp_max"
  shows "np_ndarray shp UInt8 buf =
           Inr \<lparr>shape = shp, dtype = UInt8, base = region buf, offset = start buf\<rparr>"
proof -
  from dims have conv: "\<not> list_ex (\<lambda>d. \<not> fits_intp d) shp"
    by (auto simp: list_ex_iff fits_intp_def)
  from dims have nn: "\<forall>d\<in>set shp. 0 \<le> d" by simp
  have p0: "0 \<le> prod_list shp" by (rule prod_list_nonneg_int [OF nn])
  from fit ext have "prod_list shp \<le> intp_max" by simp
  with p0 have w: "wrap_intp (prod_list shp) = prod_list shp" by (rule wrap_intp_id)
  from nb have "1 * prod_list (map (\<lambda>d. if d = 0 then 1 else d) shp) \<le> intp_max" by simp
  from array_nbytes_ok [OF _ nn this] obtain m where "array_nbytes 1 shp = Inr m" by auto
  with conv w fit show ?thesis by (simp add: np_ndarray_def)
qed

lemma pos_mult_ge:
  assumes "0 < (a::int)" and "0 < b"
  shows "a \<le> a * b" and "b \<le> a * b"
proof -
  from assms(2) have "a * 1 \<le> a * b" by (intro mult_left_mono) (use assms in simp_all)
  then show "a \<le> a * b" by simp
  from assms(1) have "1 * b \<le> a * b" by (intro mult_right_mono) (use assms in simp_all)
  then show "b \<le> a * b" by simp
qed

lemma chroma_nbytes_bound:
  assumes "0 < (width::int)" and "0 < height"
    and "height * width \<le> m" and "(height div 2) * (width div 2) * 2 \<le> m" and "2 \<le> m"
  shows "(if height div 2 = 0 then 1 else height div 2)
           * ((if width div 2 = 0 then 1 else width div 2) * 2) \<le> m"
proof -
  have le: "height \<le> height * width" "width \<le> height * width"
    by (rule pos_mult_ge [OF assms(2,1)])+
  have h2: "(height div 2) * 2 \<le> height" and w2: "(width div 2) * 2 \<le> width"
    by simp_all
  show ?thesis
    using assms(3-5) le h2 w2 by (auto simp: mult.assoc)
qed

text \<open>
  Outside the bounds numpy raises, also over an empty buffer: the byte count of the
  non-zero dimensions overflows, or a dimension does not fit.
\<close>

lemma zero_dimension_too_big:
  "np_ndarray [0, 2 ^ 62, 3] UInt8 \<lparr>region = Frame, start = 0, extent = 0\<rparr>
     = Inl (ValueError ''array is too big'')"
  by (simp add: np_ndarray_def fits_intp_def intp_max_def wrap_intp_def list_ex_iff)

lemma huge_dimension_rejected:
  "np_ndarray [0, 2 ^ 64, 3] UInt8 \<lparr>region = Frame, start = 0, extent = 0\<rparr>
     = Inl (ValueError ''Maximum allowed dimension exceeded'')"
  by (simp add: np_ndarray_def fits_intp_def intp_max_def)

subsection \<open>Successful conversions\<close>

lemma decode_rgb_ok:
  assumes "mappable w" "0 < width" "0 < height"
    and "height * width * 3 \<le> int (length (frame_mem w))"
    and "int (length (frame_mem w)) \<le> intp_max"
  shows "get_numpy_from_buffer w ''RGB'' width height =
     (Inr (Single \<lparr>shape = [height, width, 3], dtype = UInt8,
                   base = Owned (length (owned w)), offset = 0\<rparr>),
      w\<lparr>owned := owned w @ [take (nat (height * width * 3)) (frame_mem w)],
        ops := ops w @ [MapRead, Unmap]\<rparr>)"
proof -
  let ?v = "\<lparr>region = Frame, start = 0, extent = length (frame_mem w)\<rparr>"
  have hw: "0 < height * width" using assms(2,3) by simp
  have le: "height \<le> height * width" "width \<le> height * width"
    by (rule pos_mult_ge [OF assms(3,2)])+
  have tot: "height * width * 3 \<le> intp_max" using assms(4,5) by simp
  have small: "height * width \<le> intp_max" using tot hw by simp
  have dmax: "height \<le> intp_max" "width \<le> intp_max" using le small by linarith+
  have cmax: "3 \<le> intp_max" by (simp add: intp_max_def)
  have "np_ndarray [height, width, 3] UInt8 ?v =
          Inr \<lparr>shape = [height, width, 3], dtype = UInt8, base = Frame, offset = 0\<rparr>"
    using assms(2-5) dmax cmax tot
    by (subst np_ndarray_ok) (auto simp: mult.assoc)
  with assms(1) show ?thesis
    by (simp add: get_numpy_from_buffer_def buffer_map_def buffer_unmap_def
        FORMAT_HANDLERS_def handle_rgb_def np_copy_def array_data_def region_bytes_def
        mult.assoc)
qed

lemma decode_yuyv_ok:
  assumes "mappable w" "0 < width" "0 < height"
    and "height * width * 2 \<le> int (length (frame_mem w))"
    and "int (length (frame_mem w)) \<le> intp_max"
  shows "get_numpy_from_buffer w ''YUYV'' width height =
     (Inr (Single \<lparr>shape = [height, width, 2], dtype = UInt8,
                   base = Owned (length (owned w)), offset = 0\<rparr>),
      w\<lparr>owned := owned w @ [take (nat (height * width * 2)) (frame_mem w)],
        ops := ops w @ [MapRead, Unmap]\<rparr>)"
proof -
  let ?v = "\<lparr>region = Frame, start = 0, extent = length (frame_mem w)\<rparr>"
  have hw: "0 < height * width" using assms(2,3) by simp
  have le: "height \<le> height * width" "width \<le> height * width"
    by (rule pos_mult_ge [OF assms(3,2)])+
  have tot: "height * width * 2 \<le> intp_max" using assms(4,5) by simp
  have small: "height * width \<le> intp_max" using tot hw by simp
  have dmax: "height \<le> intp_max" "width \<le> intp_max" using le small by linarith+
  have cmax: "2 \<le> intp_max" by (simp add: intp_max_def)
  have "np_ndarray [height, width, 2] UInt8 ?v =
          Inr \<lparr>shape = [height, width, 2], dtype = UInt8, base = Frame, offset = 0\<rparr>"
    using assms(2-5) dmax cmax tot
    by (subst np_ndarray_ok) (auto simp: mult.assoc)
  with assms(1) show ?thesis
    by (simp add: get_numpy_from_buffer_def buffer_map_def buffer_unmap_def
        FORMAT_HANDLERS_def handle_yuyv_def np_copy_def array_data_def region_bytes_def
        mult.assoc)
qed

lemma decode_nv12_ok:
  assumes "mappable w" "0 < width" "0 < height"
    and "height * width + (height div 2) * (width div 2) * 2 \<le> int (length (frame_mem w))"
    and "int (length (frame_mem w)) \<le> intp_max"
  shows "get_numpy_from_buffer w ''NV12'' width height =
     (Inr (Pair \<lparr>shape = [height, width], dtype = UInt8,
                 base = Owned (length (owned w)), offset = 0\<rparr>
               \<lparr>shape = [height div 2, width div 2, 2], dtype = UInt8,
                 base = Owned (Suc (length (owned w))), offset = 0\<rparr>),
      w\<lparr>owned := owned w @
          [take (nat (height * width)) (frame_mem w),
           take (nat ((height div 2) * (width div 2) * 2))
             (drop (nat (height * width)) (frame_mem w))],
        ops := ops w @ [MapRead, Unmap]\<rparr>)"
proof -
  let ?n = "length (frame_mem w)"
  let ?v = "\<lparr>region = Frame, start = 0, extent = ?n\<rparr>"
  let ?c = "(height div 2) * (width div 2) * 2"
  have hw: "0 < height * width" using assms(2,3) by simp
  have h2: "0 \<le> height div 2" and w2: "0 \<le> width div 2" using assms(2,3) by simp_all
  have c: "0 \<le> ?c" using h2 w2 by simp
  have le: "height * width \<le> int ?n" using assms(4) c by linarith
  have dle: "height \<le> height * width" "width \<le> height * width"
    by (rule pos_mult_ge [OF assms(3,2)])+
  have small: "height * width \<le> intp_max" using le assms(5) by simp
  have dmax: "height \<le> intp_max" "width \<le> intp_max" using dle small by linarith+
  have csmall: "?c \<le> intp_max" using assms(4,5) hw by linarith
  have ci: "clamp_index ?n (width * height) = nat (height * width)"
    using hw le by (simp add: clamp_index_def mult.commute min_def)
  have up: "slice_upto ?v (width * height) =
              \<lparr>region = Frame, start = 0, extent = nat (height * width)\<rparr>"
    by (simp add: slice_upto_def ci)
  have fr: "slice_from ?v (width * height) =
              \<lparr>region = Frame, start = nat (height * width),
                extent = ?n - nat (height * width)\<rparr>"
    by (simp add: slice_from_def ci)
  have y: "np_ndarray [height, width] UInt8 (slice_upto ?v (width * height)) =
             Inr \<lparr>shape = [height, width], dtype = UInt8, base = Frame, offset = 0\<rparr>"
    unfolding up using assms(2,3) hw dmax small
    by (subst np_ndarray_ok) auto
  have rest: "?c \<le> int (?n - nat (height * width))"
    using assms(4) hw by linarith
  have rsmall: "int (?n - nat (height * width)) \<le> intp_max"
    using assms(5) by linarith
  have two: "2 \<le> intp_max" by (simp add: intp_max_def)
  have nzb: "(if height div 2 = 0 then 1 else height div 2)
               * ((if width div 2 = 0 then 1 else width div 2) * 2) \<le> intp_max"
    by (rule chroma_nbytes_bound [OF assms(2,3) small csmall two])
  have hd: "height div 2 \<le> intp_max" "width div 2 \<le> intp_max"
    using dmax assms(2,3) by linarith+
  have uv: "np_ndarray [height div 2, width div 2, 2] UInt8 (slice_from ?v (width * height)) =
             Inr \<lparr>shape = [height div 2, width div 2, 2], dtype = UInt8, base = Frame,
                  offset = nat (height * width)\<rparr>"
    unfolding fr using h2 w2 rest rsmall nzb hd two
    by (subst np_ndarray_ok) (auto simp: mult.assoc)
  from assms(1) y uv show ?thesis
    by (simp add: get_numpy_from_buffer_def buffer_map_def buffer_unmap_def
        FORMAT_HANDLERS_def handle_nv12_def np_copy_def array_data_def region_bytes_def
        mult.assoc)
qed

lemma take_one_drop: "k < length xs \<Longrightarrow> take (Suc 0) (drop k xs) = [xs ! k]"
  by (simp add: take_Suc_conv_app_nth)

text \<open>
  The element type of every returned array is the \<open>np.uint8\<close> the handlers pass.
\<close>

lemma np_ndarray_dtype: "np_ndarray shp dt buf = Inr a \<Longrightarrow> dtype a = dt"
  by (auto simp: np_ndarray_def split: if_splits sum.splits)

lemma handlers_pass_uint8:
  assumes "get_numpy_from_buffer w format width height = (Inr r, w')"
    and "a \<in> set (arrays r)"
  shows "dtype a = UInt8"
proof (cases "FORMAT_HANDLERS format")
  case None
  with assms(1) show ?thesis
    by (simp add: get_numpy_from_buffer_def buffer_map_def split: if_splits)
next
  case (Some h)
  with assms(1) obtain mi w1 w2 where r: "h mi width height w1 = (Inr r, w2)"
    by (auto simp: get_numpy_from_buffer_def buffer_map_def split: if_splits prod.splits)
  from FORMAT_HANDLERS_cases [OF Some] r assms(2) show ?thesis
    by (auto simp: handle_rgb_def handle_nv12_def handle_yuyv_def np_copy_def
        arrays_def Let_def split: sum.splits)
      (auto dest: np_ndarray_dtype)
qed

text \<open>
  Claim C1. For each of the formats RGB, NV12 and YUYV and all positive width and height:
  when mapping succeeds and the mapped memory has exactly the number of bytes the format
  and geometry imply (a byte count that fits a signed 64-bit size, as every buffer's
  does), \<open>get_numpy_from_buffer\<close> returns arrays of unsigned 8-bit elements with
  the shapes (height, width, 3) for RGB, the pair (height, width) and
  (height div 2, width div 2, 2) for NV12, and (height, width, 2) for YUYV. The arrays
  together hold the bytes of the frame.
\<close>

theorem decode_exact_length_shapes:
  assumes "mappable w" and "0 < width" and "0 < height"
    and "int (length (frame_mem w)) \<le> intp_max"
  shows "(int (length (frame_mem w)) = height * width * 3 \<longrightarrow>
            (\<exists>a w'. get_numpy_from_buffer w ''RGB'' width height = (Inr (Single a), w')
               \<and> shape a = [height, width, 3] \<and> dtype a = UInt8
               \<and> array_data w' a = frame_mem w))
       \<and> (int (length (frame_mem w)) = height * width + (height div 2) * (width div 2) * 2 \<longrightarrow>
            (\<exists>y uv w'. get_numpy_from_buffer w ''NV12'' width height = (Inr (Pair y uv), w')
               \<and> shape y = [height, width] \<and> dtype y = UInt8
               \<and> shape uv = [height div 2, width div 2, 2] \<and> dtype uv = UInt8
               \<and> array_data w' y @ array_data w' uv = frame_mem w))
       \<and> (int (length (frame_mem w)) = height * width * 2 \<longrightarrow>
            (\<exists>a w'. get_numpy_from_buffer w ''YUYV'' width height = (Inr (Single a), w')
               \<and> shape a = [height, width, 2] \<and> dtype a = UInt8
               \<and> array_data w' a = frame_mem w))"
proof (intro conjI impI)
  assume len: "int (length (frame_mem w)) = height * width * 3"
  then have "height * width * 3 \<le> int (length (frame_mem w))" by simp
  from decode_rgb_ok [OF assms(1-3) this assms(4)] len
  show "\<exists>a w'. get_numpy_from_buffer w ''RGB'' width height = (Inr (Single a), w')
          \<and> shape a = [height, width, 3] \<and> dtype a = UInt8 \<and> array_data w' a = frame_mem w"
    by (simp add: array_data_def region_bytes_def mult.assoc)
next
  assume len: "int (length (frame_mem w)) = height * width * 2"
  then have "height * width * 2 \<le> int (length (frame_mem w))" by simp
  from decode_yuyv_ok [OF assms(1-3) this assms(4)] len
  show "\<exists>a w'. get_numpy_from_buffer w ''YUYV'' width height = (Inr (Single a), w')
          \<and> shape a = [height, width, 2] \<and> dtype a = UInt8 \<and> array_data w' a = frame_mem w"
    by (simp add: array_data_def region_bytes_def mult.assoc)
next
  let ?c = "(height div 2) * (width div 2) * 2"
  assume len: "int (length (frame_mem w)) = height * width + ?c"
  then have le: "height * width + ?c \<le> int (length (frame_mem w))" by simp
  have hw: "0 \<le> height * width" using assms(2,3) by simp
  have c: "0 \<le> ?c" using assms(2,3) by simp
  have n: "length (frame_mem w) = nat (height * width) + nat ?c"
    using len hw c by linarith
  have split: "take (nat (height * width)) (frame_mem w)
                 @ take (nat ?c) (drop (nat (height * width)) (frame_mem w)) = frame_mem w"
    using n by (simp add: take_add [symmetric])
  from decode_nv12_ok [OF assms(1-3) le assms(4)] split
  show "\<exists>y uv w'. get_numpy_from_buffer w ''NV12'' width height = (Inr (Pair y uv), w')
          \<and> shape y = [height, width] \<and> dtype y = UInt8
          \<and> shape uv = [height div 2, width div 2, 2] \<and> dtype uv = UInt8
          \<and> array_data w' y @ array_data w' uv = frame_mem w"
    by (simp add: array_data_def region_bytes_def nth_append mult.assoc)
qed

text \<open>
  The three formats at 4x2, 4x2 and 4x3.
\<close>

theorem decode_exact_length_shapes_witness:
  "mappable frame24 \<and> (0::int) < 4 \<and> (0::int) < 2
   \<and> int (length (frame_mem frame24)) \<le> intp_max
   \<and> int (length (frame_mem frame24)) = 2 * 4 * 3
   \<and> (\<exists>a w'. get_numpy_from_buffer frame24 ''RGB'' 4 2 = (Inr (Single a), w')
               \<and> shape a = [2, 4, 3] \<and> dtype a = UInt8
               \<and> array_data w' a = frame_mem frame24)
   \<and> int (length (frame_mem frame12)) = 2 * 4 + (2 div 2) * (4 div 2) * 2
   \<and> (\<exists>y uv w'. get_numpy_from_buffer frame12 ''NV12'' 4 2 = (Inr (Pair y uv), w')
               \<and> shape y = [2, 4] \<and> dtype y = UInt8
               \<and> shape uv = [1, 2, 2] \<and> dtype uv = UInt8
               \<and> array_data w' y @ array_data w' uv = frame_mem frame12)
   \<and> int (length (frame_mem frame24)) = 3 * 4 * 2
   \<and> (\<exists>a w'. get_numpy_from_buffer frame24 ''YUYV'' 4 3 = (Inr (Single a), w')
               \<and> shape a = [3, 4, 2] \<and> dtype a = UInt8
               \<and> array_data w' a = frame_mem frame24)"
proof -
  have m24: "mappable frame24" and m12: "mappable frame12"
    by (simp_all add: frame24_def frame12_def)
  have l24: "length (frame_mem frame24) = 24" and l12: "length (frame_mem frame12) = 12"
    by (simp_all add: frame24_def frame12_def)
  have b24: "int (length (frame_mem frame24)) \<le> intp_max"
    and b12: "int (length (frame_mem frame12)) \<le> intp_max"
    by (simp_all add: l24 l12 intp_max_def)
  show ?thesis
    using m24 l24 l12 b24
      decode_exact_length_shapes [OF m24 _ _ b24, of 4 2]
      decode_exact_length_shapes [OF m12 _ _ b12, of 4 2]
      decode_exact_length_shapes [OF m24 _ _ b24, of 4 3]
    by simp
qed

text \<open>
  Claim C2. With width 4, height 2 and format NV12 on a 12-byte buffer, the result is a
  pair: the luma array has shape (2, 4) and holds the first 8 bytes in row-major order, the
  chroma array has shape (1, 2, 2) and holds the last 4 bytes in row-major order.
\<close>

theorem nv12_4x2_scenario:
  assumes "mappable w" and "length ys = 8" and "length uvs = 4"
    and "frame_mem w = ys @ uvs"
  shows "\<exists>y uv w'. get_numpy_from_buffer w ''NV12'' 4 2 = (Inr (Pair y uv), w')
           \<and> shape y = [2, 4] \<and> array_data w' y = ys
           \<and> (\<forall>i<2. \<forall>j<4. getitem w' y [i, j] = Some [ys ! (i * 4 + j)])
           \<and> shape uv = [1, 2, 2] \<and> array_data w' uv = uvs
           \<and> (\<forall>j<2. \<forall>c<2. getitem w' uv [0, j, c] = Some [uvs ! (j * 2 + c)])"
proof -
  have le: "(2::int) * 4 + (2 div 2) * (4 div 2) * 2 \<le> int (length (frame_mem w))"
    using assms by simp
  have dec: "get_numpy_from_buffer w ''NV12'' 4 2 =
     (Inr (Pair \<lparr>shape = [2, 4], dtype = UInt8, base = Owned (length (owned w)), offset = 0\<rparr>
               \<lparr>shape = [1, 2, 2], dtype = UInt8, base = Owned (Suc (length (owned w))),
                 offset = 0\<rparr>),
      w\<lparr>owned := owned w @ [ys, uvs], ops := ops w @ [MapRead, Unmap]\<rparr>)"
    using decode_nv12_ok [OF assms(1) _ _ le] assms(2-4) by (simp add: intp_max_def)
  have yi: "\<forall>i<2. \<forall>j<4. take (Suc 0) (drop (i * 4 + j) ys) = [ys ! (i * 4 + j)]"
    using assms(2) by (auto intro!: take_one_drop)
  have ui: "\<forall>j<2. \<forall>c<2. take (Suc 0) (drop (j * 2 + c) uvs) = [uvs ! (j * 2 + c)]"
    using assms(3) by (auto intro!: take_one_drop)
  show ?thesis
    using assms(2,3) yi ui
    by (simp add: dec array_data_def getitem_def region_bytes_def nth_append)
qed

theorem nv12_4x2_scenario_witness:
  "mappable frame12
   \<and> frame_mem frame12 = [10, 11, 12, 13, 14, 15, 16, 17] @ [200, 201, 202, 203]
   \<and> (\<exists>y uv w'. get_numpy_from_buffer frame12 ''NV12'' 4 2 = (Inr (Pair y uv), w')
           \<and> shape y = [2, 4] \<and> array_data w' y = [10, 11, 12, 13, 14, 15, 16, 17]
           \<and> getitem w' y [1, 2] = Some [16]
           \<and> shape uv = [1, 2, 2] \<and> array_data w' uv = [200, 201, 202, 203]
           \<and> getitem w' uv [0, 1, 0] = Some [202])"
proof -
  have m: "mappable frame12" by (simp add: frame12_def)
  have f: "frame_mem frame12 = [10, 11, 12, 13, 14, 15, 16, 17] @ [200, 201, 202, 203]"
    by (simp add: frame12_def)
  have ly: "length [10, 11, 12, 13, 14, 15, 16, 17 :: byte] = 8" by simp
  have lu: "length [200, 201, 202, 203 :: byte] = 4" by simp
  from nv12_4x2_scenario [OF m ly lu f]
  obtain y uv w' where r: "get_numpy_from_buffer frame12 ''NV12'' 4 2 = (Inr (Pair y uv), w')"
    and sy: "shape y = [2, 4]" and dy: "array_data w' y = [10, 11, 12, 13, 14, 15, 16, 17]"
    and iy: "\<forall>i<2. \<forall>j<4. getitem w' y [i, j] = Some [[10, 11, 12, 13, 14, 15, 16, 17] ! (i * 4 + j)]"
    and su: "shape uv = [1, 2, 2]" and du: "array_data w' uv = [200, 201, 202, 203]"
    and iu: "\<forall>j<2. \<forall>c<2. getitem w' uv [0, j, c] = Some [[200, 201, 202, 203] ! (j * 2 + c)]"
    by blast
  from iy have "getitem w' y [1, 2] = Some [[10, 11, 12, 13, 14, 15, 16, 17] ! (1 * 4 + 2)]"
    by (simp del: nth_Cons_numeral)
  then have g1: "getitem w' y [1, 2] = Some [16]" by simp
  from iu have "getitem w' uv [0, 1, 0] = Some [[200, 201, 202, 203] ! (1 * 2 + 0)]"
    by (simp del: nth_Cons_numeral)
  then have g2: "getitem w' uv [0, 1, 0] = Some [202]" by simp
  show ?thesis using m f r sy dy su du g1 g2 by blast
qed

text \<open>
  Claim C9. With width 4, height 2 and format RGB on a buffer holding the bytes 0..23, the
  result is one array of shape (2, 4, 3) with \<open>result[0,0] = [0,1,2]\<close> and
  \<open>result[1,3] = [21,22,23]\<close>.
\<close>

theorem rgb_4x2_scenario:
  assumes "mappable w"
    and "frame_mem w = [0, 1, 2, 3, 4, 5, 6, 7, 8, 9, 10, 11, 12, 13, 14, 15, 16, 17, 18,
                        19, 20, 21, 22, 23]"
  shows "\<exists>a w'. get_numpy_from_buffer w ''RGB'' 4 2 = (Inr (Single a), w')
           \<and> shape a = [2, 4, 3]
           \<and> getitem w' a [0, 0] = Some [0, 1, 2]
           \<and> getitem w' a [1, 3] = Some [21, 22, 23]"
  using assms by (simp add: decode_defs getitem_def)

theorem rgb_4x2_scenario_witness:
  "mappable frame24
   \<and> (\<exists>a w'. get_numpy_from_buffer frame24 ''RGB'' 4 2 = (Inr (Single a), w')
           \<and> shape a = [2, 4, 3]
           \<and> getitem w' a [0, 0] = Some [0, 1, 2]
           \<and> getitem w' a [1, 3] = Some [21, 22, 23])"
proof -
  have m: "mappable frame24" by (simp add: frame24_def)
  have f: "frame_mem frame24 = [0, 1, 2, 3, 4, 5, 6, 7, 8, 9, 10, 11, 12, 13, 14, 15, 16, 17,
                                18, 19, 20, 21, 22, 23]"
    by (simp add: frame24_def)
  show ?thesis using m rgb_4x2_scenario [OF m f] by simp
qed

subsection \<open>The returned arrays are copies\<close>

lemma owned_region_bytes:
  "owned w2 = owned w1 \<Longrightarrow> region_bytes w2 (Owned k) = region_bytes w1 (Owned k)"
  by (simp add: region_bytes_def)

lemma handler_results_owned:
  assumes "FORMAT_HANDLERS f = Some h" and "h mi wd ht w = (Inr r, w')"
    and "a \<in> set (arrays r)"
  shows "\<exists>k. base a = Owned k"
  using FORMAT_HANDLERS_cases [OF assms(1)] assms(2,3)
  by (auto simp: handle_rgb_def handle_nv12_def handle_yuyv_def np_copy_def arrays_def Let_def
      split: sum.splits)

lemma decode_results_owned:
  assumes "get_numpy_from_buffer w format width height = (Inr r, w')"
    and "a \<in> set (arrays r)"
  shows "\<exists>k. base a = Owned k"
proof (cases "FORMAT_HANDLERS format")
  case None
  with assms(1) show ?thesis
    by (simp add: get_numpy_from_buffer_def buffer_map_def split: if_splits)
next
  case (Some h)
  with assms(1) obtain mi w1 w2 where "h mi width height w1 = (Inr r, w2)"
    by (auto simp: get_numpy_from_buffer_def buffer_map_def split: if_splits prod.splits)
  from handler_results_owned [OF Some this assms(2)] show ?thesis .
qed

text \<open>
  An array made by \<open>np.ndarray\<close> over the mapped data, before \<open>copy()\<close>, reads
  the frame memory: it changes when the frame does.
\<close>

lemma view_follows_frame:
  "\<exists>v. np_ndarray [1, 2] UInt8 (data (snd (fst (buffer_map frame12)))) = Inr v
        \<and> array_data frame12 v = [10, 11]
        \<and> array_data (frame12\<lparr>frame_mem := [0, 0]\<rparr>) v = [0, 0]"
  by (simp add: frame12_def buffer_map_def np_ndarray_def array_data_def region_bytes_def
      fits_intp_def intp_max_def wrap_intp_def)

text \<open>
  Claim C3. Whenever \<open>get_numpy_from_buffer\<close> succeeds, every returned array is an
  independent copy: in any later world in which the memory numpy owns is unchanged, whatever
  happened to the bytes of the source buffer (mutation or release), the array has the same
  content and the same elements.
\<close>

theorem decoded_arrays_independent:
  assumes "get_numpy_from_buffer w format width height = (Inr r, w')"
    and "a \<in> set (arrays r)"
    and "owned w'' = owned w'"
  shows "array_data w'' a = array_data w' a \<and> getitem w'' a idx = getitem w' a idx"
proof -
  from decode_results_owned [OF assms(1,2)] obtain k where "base a = Owned k" ..
  with owned_region_bytes [OF assms(3), of k]
  have eq: "region_bytes w'' (base a) = region_bytes w' (base a)" by simp
  show ?thesis unfolding array_data_def getitem_def eq by simp
qed

text \<open>
  The frame is overwritten with zeros, and then released, after a YUYV conversion.
\<close>

theorem decoded_arrays_independent_witness:
  "(\<exists>a w'. get_numpy_from_buffer frame12 ''YUYV'' 3 2 = (Inr (Single a), w')
      \<and> a \<in> set (arrays (Single a))
      \<and> owned (w'\<lparr>frame_mem := [0, 0, 0, 0, 0, 0, 0, 0, 0, 0, 0, 0]\<rparr>) = owned w'
      \<and> array_data (w'\<lparr>frame_mem := [0, 0, 0, 0, 0, 0, 0, 0, 0, 0, 0, 0]\<rparr>) a
          = [10, 11, 12, 13, 14, 15, 16, 17, 200, 201, 202, 203]
      \<and> array_data (w'\<lparr>frame_mem := []\<rparr>) a
          = [10, 11, 12, 13, 14, 15, 16, 17, 200, 201, 202, 203])"
proof -
  obtain a w' where r: "get_numpy_from_buffer frame12 ''YUYV'' 3 2 = (Inr (Single a), w')"
    and d: "array_data w' a = [10, 11, 12, 13, 14, 15, 16, 17, 200, 201, 202, 203]"
    by (simp add: frame12_def decode_defs)
  have mem: "a \<in> set (arrays (Single a))" by (simp add: arrays_def)
  have "array_data (w'\<lparr>frame_mem := [0, 0, 0, 0, 0, 0, 0, 0, 0, 0, 0, 0]\<rparr>) a = array_data w' a"
    using decoded_arrays_independent [OF r mem, of "w'\<lparr>frame_mem := [0, 0, 0, 0, 0, 0, 0, 0, 0, 0, 0, 0]\<rparr>"]
    by simp
  moreover have "array_data (w'\<lparr>frame_mem := []\<rparr>) a = array_data w' a"
    using decoded_arrays_independent [OF r mem, of "w'\<lparr>frame_mem := []\<rparr>"]
    by simp
  ultimately show ?thesis using r mem d by simp
qed

subsection \<open>Mapping and unmapping\<close>

text \<open>
  Claim C4. When mapping the buffer succeeds, \<open>get_numpy_from_buffer\<close> calls
  \<open>unmap\<close> exactly once, as its last action on the buffer, on every exit path: normal
  return, unsupported format, and an exception raised by a handler.
\<close>

theorem unmap_once_on_every_path:
  assumes "mappable w"
  shows "ops (snd (get_numpy_from_buffer w format width height)) = ops w @ [MapRead, Unmap]
       \<and> count_list (ops (snd (get_numpy_from_buffer w format width height))) Unmap
           = count_list (ops w) Unmap + 1"
proof -
  let ?mi = "\<lparr>data = \<lparr>region = Frame, start = 0, extent = length (frame_mem w)\<rparr>\<rparr>"
  let ?w1 = "w\<lparr>ops := ops w @ [MapRead]\<rparr>"
  have tr: "ops (snd (get_numpy_from_buffer w format width height)) = ops w @ [MapRead, Unmap]"
  proof (cases "FORMAT_HANDLERS format")
    case None
    with assms show ?thesis
      by (simp add: get_numpy_from_buffer_def buffer_map_def buffer_unmap_def)
  next
    case (Some h)
    from handler_ops [OF Some, of ?mi width height ?w1]
    have "ops (snd (h ?mi width height ?w1)) = ops w @ [MapRead]" by simp
    with assms Some show ?thesis
      by (simp add: get_numpy_from_buffer_def buffer_map_def buffer_unmap_def case_prod_beta)
  qed
  then show ?thesis by simp
qed

text \<open>
  A normal return, an unsupported format and a handler that raises.
\<close>

theorem unmap_once_on_every_path_witness:
  "mappable frame24
   \<and> \<not> isl (fst (get_numpy_from_buffer frame24 ''RGB'' 4 2))
   \<and> ops (snd (get_numpy_from_buffer frame24 ''RGB'' 4 2)) = [MapRead, Unmap]
   \<and> fst (get_numpy_from_buffer frame24 ''FOO'' 4 2) = Inl (ValueError ''Unsupported format: FOO'')
   \<and> ops (snd (get_numpy_from_buffer frame24 ''FOO'' 4 2)) = [MapRead, Unmap]
   \<and> fst (get_numpy_from_buffer frame24 ''RGB'' 8 8)
         = Inl (TypeError ''buffer is too small for requested array'')
   \<and> ops (snd (get_numpy_from_buffer frame24 ''RGB'' 8 8)) = [MapRead, Unmap]"
proof -
  have m: "mappable frame24" by (simp add: frame24_def)
  have o: "ops frame24 = []" by (simp add: frame24_def)
  have r1: "\<not> isl (fst (get_numpy_from_buffer frame24 ''RGB'' 4 2))"
    by (simp add: frame24_def decode_defs)
  have r2: "fst (get_numpy_from_buffer frame24 ''FOO'' 4 2)
              = Inl (ValueError ''Unsupported format: FOO'')"
    by (simp add: frame24_def decode_defs)
  have r3: "fst (get_numpy_from_buffer frame24 ''RGB'' 8 8)
              = Inl (TypeError ''buffer is too small for requested array'')"
    by (simp add: frame24_def decode_defs)
  show ?thesis
    using m o r1 r2 r3
      unmap_once_on_every_path [OF m, of "''RGB''" 4 2]
      unmap_once_on_every_path [OF m, of "''FOO''" 4 2]
      unmap_once_on_every_path [OF m, of "''RGB''" 8 8]
    by simp
qed

text \<open>
  Claim C5. For a format that is none of RGB, NV12, YUYV and a buffer whose mapping
  succeeds, \<open>get_numpy_from_buffer\<close> raises an error whose message names the format,
  returns nothing, allocates no array, and has unmapped the buffer.
\<close>

theorem unsupported_format_error:
  assumes "mappable w" and "format \<notin> {''RGB'', ''NV12'', ''YUYV''}"
  shows "get_numpy_from_buffer w format width height =
           (Inl (ValueError (''Unsupported format: '' @ format)),
            w\<lparr>ops := ops w @ [MapRead, Unmap]\<rparr>)"
proof -
  from assms(2) have "FORMAT_HANDLERS format = None"
    using FORMAT_HANDLERS_None [of format] by blast
  with assms(1) show ?thesis
    by (simp add: get_numpy_from_buffer_def buffer_map_def buffer_unmap_def)
qed

theorem unsupported_format_error_witness:
  "mappable frame24 \<and> ''FOO'' \<notin> {''RGB'', ''NV12'', ''YUYV''}
   \<and> get_numpy_from_buffer frame24 ''FOO'' 4 2 =
        (Inl (ValueError ''Unsupported format: FOO''), frame24\<lparr>ops := [MapRead, Unmap]\<rparr>)"
proof -
  have m: "mappable frame24" by (simp add: frame24_def)
  have f: "''FOO'' \<notin> {''RGB'', ''NV12'', ''YUYV''}" by simp
  have o: "ops frame24 = []" by (simp add: frame24_def)
  show ?thesis
    using m f o unsupported_format_error [OF m f, of 4 2] by simp
qed

text \<open>
  Claim C6. When mapping the buffer fails, \<open>get_numpy_from_buffer\<close> raises the
  buffer-mapping error, returns nothing, and never calls \<open>unmap\<close>.
\<close>

theorem map_failure_error:
  assumes "\<not> mappable w"
  shows "get_numpy_from_buffer w format width height =
           (Inl (ValueError ''Buffer mapping failed''), w\<lparr>ops := ops w @ [MapRead]\<rparr>)
       \<and> count_list (ops (snd (get_numpy_from_buffer w format width height))) Unmap
           = count_list (ops w) Unmap"
  using assms by (simp add: get_numpy_from_buffer_def buffer_map_def)

theorem map_failure_error_witness:
  "\<not> mappable (frame24\<lparr>mappable := False\<rparr>)
   \<and> get_numpy_from_buffer (frame24\<lparr>mappable := False\<rparr>) ''RGB'' 4 2 =
        (Inl (ValueError ''Buffer mapping failed''),
         frame24\<lparr>mappable := False, ops := [MapRead]\<rparr>)
   \<and> count_list (ops (snd (get_numpy_from_buffer (frame24\<lparr>mappable := False\<rparr>) ''RGB'' 4 2)))
        Unmap = 0"
proof -
  have m: "\<not> mappable (frame24\<lparr>mappable := False\<rparr>)" by simp
  have o: "ops frame24 = []" by (simp add: frame24_def)
  show ?thesis
    using m o map_failure_error [OF m, of "''RGB''" 4 2] by simp
qed

section \<open>Properties of the host probes\<close>

subsection \<open>Decoding the captured output\<close>

lemma utf8_scan_ascii:
  "\<forall>c\<in>set s. (of_char c :: nat) < 128 \<Longrightarrow> utf8_scan 0 lo hi s"
  by (induction s arbitrary: lo hi) (simp_all add: Let_def)

lemma utf8_valid_ascii: "\<forall>c\<in>set s. (of_char c :: nat) < 128 \<Longrightarrow> utf8_valid s"
  by (simp add: utf8_valid_def utf8_scan_ascii)

lemma utf8_scan_ascii_prefix:
  "\<forall>c\<in>set a. (of_char c :: nat) < 128 \<Longrightarrow>
     utf8_scan 0 lo hi (a @ b) = utf8_scan 0 0x80 0xBF b"
proof (induction a arbitrary: lo hi)
  case Nil
  show ?case by (cases b) (simp_all add: Let_def)
next
  case (Cons c a)
  then show ?case by (simp add: Let_def)
qed

lemma universal_newlines_no_cr:
  "CHR 0x0D \<notin> set s \<Longrightarrow> universal_newlines s = s"
  by (induction s rule: universal_newlines.induct) auto

lemma translate_newlines_valid:
  "\<forall>c\<in>set s. (of_char c :: nat) < 128 \<Longrightarrow>
     translate_newlines s = Inr (universal_newlines s)"
  by (simp add: translate_newlines_def utf8_valid_ascii)

lemma translate_newlines_ascii:
  "\<forall>c\<in>set s. (of_char c :: nat) < 128 \<Longrightarrow> CHR 0x0D \<notin> set s \<Longrightarrow> translate_newlines s = Inr s"
  by (simp add: translate_newlines_def utf8_valid_ascii universal_newlines_no_cr)

lemma two_device_run:
  "subprocess_run two_device_host [''hailortcli'', ''fw-control'', ''identify'']
     = Inr \<lparr>returncode = 0,
            stdout = ''Device Architecture: HAILO8'' @ [CHR 0x0A] @ ''Device Architecture: HAILO8L'',
            stderr = []\<rparr>"
proof -
  have out: "translate_newlines
               (''Device Architecture: HAILO8'' @ [CHR 0x0A] @ ''Device Architecture: HAILO8L'')
             = Inr (''Device Architecture: HAILO8'' @ [CHR 0x0A] @ ''Device Architecture: HAILO8L'')"
    by (rule translate_newlines_ascii) simp_all
  have err: "translate_newlines [] = Inr []"
    by (rule translate_newlines_ascii) simp_all
  show ?thesis
    unfolding subprocess_run_def two_device_host_def
    by (simp only: out err proc_outcome.case sum.case)
qed

subsection \<open>Failing probes\<close>

lemma detect_hailo_arch_never_raises: "\<exists>d r. detect_hailo_arch host = Inr (d, r)"
  by (cases "detect_hailo_arch_try host") (auto simp: detect_hailo_arch_def)

lemma detect_hailo_arch_run_raises:
  "subprocess_run host [''hailortcli'', ''fw-control'', ''identify''] = Inl e \<Longrightarrow>
     detect_hailo_arch host = Inr ([ErrorOccurred e], None)"
  by (simp add: detect_hailo_arch_def detect_hailo_arch_try_def)

lemma detect_hailo_arch_spawn_failure:
  "host [''hailortcli'', ''fw-control'', ''identify''] = SpawnFailed msg \<Longrightarrow>
     detect_hailo_arch host = Inr ([ErrorOccurred (FileNotFoundError msg)], None)"
  by (simp add: detect_hailo_arch_def detect_hailo_arch_try_def subprocess_run_def)

lemma detect_hailo_arch_nonzero_exit:
  "subprocess_run host [''hailortcli'', ''fw-control'', ''identify''] = Inr result \<Longrightarrow>
   returncode result \<noteq> 0 \<Longrightarrow>
     detect_hailo_arch host = Inr ([ErrorRunning (stderr result)], None)"
  by (simp add: detect_hailo_arch_def detect_hailo_arch_try_def)

lemma detect_pkg_installed_zero_exit:
  "host [''dpkg'', ''-s'', pkg_name] = Exited 0 out err \<Longrightarrow>
     detect_pkg_installed host pkg_name = Inr True"
  by (simp add: detect_pkg_installed_def check_output_def)

lemma detect_pkg_installed_nonzero_exit:
  "host [''dpkg'', ''-s'', pkg_name] = Exited rc out err \<Longrightarrow> rc \<noteq> 0 \<Longrightarrow>
     detect_pkg_installed host pkg_name = Inr False"
  by (simp add: detect_pkg_installed_def check_output_def)

lemma detect_pkg_installed_spawn_failure:
  "host [''dpkg'', ''-s'', pkg_name] = SpawnFailed msg \<Longrightarrow>
     detect_pkg_installed host pkg_name = Inl (FileNotFoundError msg)"
  by (simp add: detect_pkg_installed_def check_output_def)

text \<open>
  Claim C7. Both probes are to turn every probe failure, a missing executable included,
  into False or None. \<open>detect_hailo_arch\<close> does; \<open>detect_pkg_installed\<close> catches
  CalledProcessError only, so on a host where \<open>dpkg\<close> cannot be started the
  FileNotFoundError leaves the function.
\<close>

theorem detect_pkg_installed_missing_executable:
  "no_exec_host [''dpkg'', ''-s'', ''hailort''] = SpawnFailed ''[Errno 2] No such file or directory''
   \<and> detect_pkg_installed no_exec_host ''hailort''
       = Inl (FileNotFoundError ''[Errno 2] No such file or directory'')
   \<and> detect_hailo_arch no_exec_host
       = Inr ([ErrorOccurred (FileNotFoundError ''[Errno 2] No such file or directory'')], None)"
  by (simp add: no_exec_host_def detect_pkg_installed_def check_output_def
      detect_hailo_arch_def detect_hailo_arch_try_def subprocess_run_def)

subsection \<open>The architecture line\<close>

lemma str_in_iff: "str_in p s \<longleftrightarrow> (\<exists>a b. s = a @ p @ b)"
proof (induction s)
  case Nil
  show ?case by auto
next
  case (Cons c cs)
  show ?case
  proof
    assume "str_in p (c # cs)"
    then consider "prefix p (c # cs)" | "str_in p cs" by auto
    then show "\<exists>a b. c # cs = a @ p @ b"
    proof cases
      case 1
      then obtain b where "c # cs = p @ b" by (auto simp: prefix_def)
      then have "c # cs = [] @ p @ b" by simp
      then show ?thesis by blast
    next
      case 2
      with Cons.IH obtain a b where "cs = a @ p @ b" by blast
      then have "c # cs = (c # a) @ p @ b" by simp
      then show ?thesis by blast
    qed
  next
    assume "\<exists>a b. c # cs = a @ p @ b"
    then obtain a b where ab: "c # cs = a @ p @ b" by blast
    show "str_in p (c # cs)"
    proof (cases a)
      case Nil
      with ab have "prefix p (c # cs)" by (simp add: prefix_def)
      then show ?thesis by simp
    next
      case (Cons x xs)
      with ab have "cs = xs @ p @ b" by simp
      with Cons.IH have "str_in p cs" by blast
      then show ?thesis by simp
    qed
  qed
qed

lemma hailo8_in_hailo8l: "str_in ''HAILO8L'' s \<Longrightarrow> str_in ''HAILO8'' s"
proof -
  assume "str_in ''HAILO8L'' s"
  then obtain a b where "s = a @ ''HAILO8L'' @ b" by (auto simp: str_in_iff)
  then have "s = a @ ''HAILO8'' @ (''L'' @ b)" by simp
  then show ?thesis unfolding str_in_iff by blast
qed

lemma scan_lines_first_hailo8l:
  assumes "i < length ls"
    and "str_in ''Device Architecture'' (ls ! i)" and "str_in ''HAILO8L'' (ls ! i)"
    and "\<forall>j<i. \<not> (str_in ''Device Architecture'' (ls ! j) \<and> str_in ''HAILO8'' (ls ! j)
                    \<and> \<not> str_in ''HAILO8L'' (ls ! j))"
  shows "scan_lines ls = Some ''hailo8l''"
  using assms
proof (induction ls arbitrary: i)
  case Nil
  then show ?case by simp
next
  case (Cons l ls)
  show ?case
  proof (cases i)
    case 0
    with Cons.prems show ?thesis by simp
  next
    case (Suc k)
    with Cons.prems have k: "k < length ls" "str_in ''Device Architecture'' (ls ! k)"
      "str_in ''HAILO8L'' (ls ! k)" by simp_all
    have later: "\<forall>j<k. \<not> (str_in ''Device Architecture'' (ls ! j) \<and> str_in ''HAILO8'' (ls ! j)
                    \<and> \<not> str_in ''HAILO8L'' (ls ! j))"
    proof (intro allI impI)
      fix j assume "j < k"
      then have "Suc j < i" using Suc by simp
      with Cons.prems(4) show "\<not> (str_in ''Device Architecture'' (ls ! j) \<and> str_in ''HAILO8'' (ls ! j)
                    \<and> \<not> str_in ''HAILO8L'' (ls ! j))"
        by fastforce
    qed
    have ih: "scan_lines ls = Some ''hailo8l''" by (rule Cons.IH [OF k later])
    have "0 < i" using Suc by simp
    with Cons.prems(4) have head: "\<not> (str_in ''Device Architecture'' l \<and> str_in ''HAILO8'' l
                    \<and> \<not> str_in ''HAILO8L'' l)"
      by fastforce
    show ?thesis
    proof (cases "str_in ''Device Architecture'' l")
      case False
      then show ?thesis using ih by simp
    next
      case True
      with head show ?thesis using ih by auto
    qed
  qed
qed

text \<open>
  The lines searched are those of the decoded text: a lone carriage return inside the
  architecture line splits it, and output that does not decode yields \<open>None\<close>.
\<close>

lemma lone_carriage_return_splits_line:
  "detect_hailo_arch cr_host = Inr ([CouldNotDetermine], None)"
proof -
  let ?raw = "''Device Architecture:'' @ [CHR 0x0D] @ ''HAILO8L'' @ [CHR 0x0A]"
  have out: "translate_newlines ?raw
               = Inr (''Device Architecture:'' @ [CHR 0x0A] @ ''HAILO8L'' @ [CHR 0x0A])"
    by (subst translate_newlines_valid) simp_all
  have err: "translate_newlines [] = Inr []"
    by (subst translate_newlines_valid) simp_all
  have run: "subprocess_run cr_host [''hailortcli'', ''fw-control'', ''identify'']
               = Inr \<lparr>returncode = 0,
                      stdout = ''Device Architecture:'' @ [CHR 0x0A] @ ''HAILO8L'' @ [CHR 0x0A],
                      stderr = []\<rparr>"
    unfolding subprocess_run_def cr_host_def by (simp only: out err proc_outcome.case sum.case)
  show ?thesis
    by (simp add: detect_hailo_arch_def detect_hailo_arch_try_def run)
qed

lemma undecodable_output_gives_None:
  "detect_hailo_arch bad_byte_host = Inr ([ErrorOccurred UnicodeDecodeError], None)"
proof -
  have "\<not> utf8_valid (''Device Architecture: HAILO8L'' @ [CHR 0xFF, CHR 0x0A])"
    unfolding utf8_valid_def by (subst utf8_scan_ascii_prefix) (simp_all add: Let_def)
  then have "translate_newlines (''Device Architecture: HAILO8L'' @ [CHR 0xFF, CHR 0x0A])
               = Inl UnicodeDecodeError"
    by (simp only: translate_newlines_def if_False)
  then have "subprocess_run bad_byte_host [''hailortcli'', ''fw-control'', ''identify'']
               = Inl UnicodeDecodeError"
    unfolding subprocess_run_def bad_byte_host_def by (simp only: proc_outcome.case sum.case)
  then show ?thesis
    by (simp add: detect_hailo_arch_def detect_hailo_arch_try_def)
qed

text \<open>
  Claim C10, as the code has it. For a \<open>hailortcli\<close> run that \<open>subprocess.run\<close>
  completes (the output decodes) with exit status 0: if some line of the decoded output
  \<open>result.stdout\<close> contains both "Device Architecture" and "HAILO8L", and no
  earlier line contains "Device Architecture" and "HAILO8" without "HAILO8L", then
  \<open>detect_hailo_arch\<close> returns "hailo8l". On that line the HAILO8 test would match
  too; the HAILO8L test comes first.
\<close>

theorem first_architecture_line_hailo8l:
  assumes "subprocess_run host [''hailortcli'', ''fw-control'', ''identify''] = Inr result"
    and "returncode result = 0"
    and "i < length (split_nl (stdout result))"
    and "str_in ''Device Architecture'' (split_nl (stdout result) ! i)"
    and "str_in ''HAILO8L'' (split_nl (stdout result) ! i)"
    and "\<forall>j<i. \<not> (str_in ''Device Architecture'' (split_nl (stdout result) ! j)
                    \<and> str_in ''HAILO8'' (split_nl (stdout result) ! j)
                    \<and> \<not> str_in ''HAILO8L'' (split_nl (stdout result) ! j))"
  shows "detect_hailo_arch host = Inr ([], Some ''hailo8l'')
         \<and> str_in ''HAILO8'' (split_nl (stdout result) ! i)"
proof -
  have "scan_lines (split_nl (stdout result)) = Some ''hailo8l''"
    by (rule scan_lines_first_hailo8l [OF assms(3-6)])
  with assms(1,2) have "detect_hailo_arch host = Inr ([], Some ''hailo8l'')"
    by (simp add: detect_hailo_arch_def detect_hailo_arch_try_def)
  with hailo8_in_hailo8l [OF assms(5)] show ?thesis by simp
qed

theorem first_architecture_line_hailo8l_witness:
  "subprocess_run hailo8l_host [''hailortcli'', ''fw-control'', ''identify'']
     = Inr \<lparr>returncode = 0,
            stdout = ''Board Name: Hailo-8'' @ [CHR 0x0A] @ ''Device Architecture: HAILO8L'',
            stderr = []\<rparr>
   \<and> detect_hailo_arch hailo8l_host = Inr ([], Some ''hailo8l'')"
proof -
  let ?out = "''Board Name: Hailo-8'' @ [CHR 0x0A] @ ''Device Architecture: HAILO8L''"
  let ?res = "\<lparr>returncode = 0, stdout = ?out, stderr = []\<rparr>"
  have h: "subprocess_run hailo8l_host [''hailortcli'', ''fw-control'', ''identify''] = Inr ?res"
  proof -
    have out: "translate_newlines ?out = Inr ?out"
      by (rule translate_newlines_ascii) simp_all
    have err: "translate_newlines [] = Inr []"
      by (rule translate_newlines_ascii) simp_all
    show ?thesis
      unfolding subprocess_run_def hailo8l_host_def
      by (simp only: out err proc_outcome.case sum.case)
  qed
  have rc: "returncode ?res = 0" by simp
  have ls: "split_nl (stdout ?res) = [''Board Name: Hailo-8'', ''Device Architecture: HAILO8L'']"
    by simp
  have i: "1 < length (split_nl (stdout ?res))" unfolding ls by simp
  have da: "str_in ''Device Architecture'' (split_nl (stdout ?res) ! 1)" unfolding ls by simp
  have l: "str_in ''HAILO8L'' (split_nl (stdout ?res) ! 1)" unfolding ls by simp
  have before: "\<forall>j<1. \<not> (str_in ''Device Architecture'' (split_nl (stdout ?res) ! j)
                    \<and> str_in ''HAILO8'' (split_nl (stdout ?res) ! j)
                    \<and> \<not> str_in ''HAILO8L'' (split_nl (stdout ?res) ! j))"
    unfolding ls by simp
  have "detect_hailo_arch hailo8l_host = Inr ([], Some ''hailo8l'')"
    using first_architecture_line_hailo8l [of hailo8l_host ?res 1] h rc i da l before
    by blast
  with h show ?thesis by simp
qed

text \<open>
  Claim C10 as stated fails when an earlier line names a HAILO8 device: the loop returns at
  the first line that names an architecture.
\<close>

theorem two_devices_first_line_wins:
  "str_in ''Device Architecture''
     (split_nl (''Device Architecture: HAILO8'' @ [CHR 0x0A] @ ''Device Architecture: HAILO8L'') ! 1)
   \<and> str_in ''HAILO8L''
     (split_nl (''Device Architecture: HAILO8'' @ [CHR 0x0A] @ ''Device Architecture: HAILO8L'') ! 1)
   \<and> two_device_host [''hailortcli'', ''fw-control'', ''identify'']
       = Exited 0 (''Device Architecture: HAILO8'' @ [CHR 0x0A] @ ''Device Architecture: HAILO8L'') []
   \<and> detect_hailo_arch two_device_host = Inr ([], Some ''hailo8'')"
  by (simp add: two_device_host_def detect_hailo_arch_def detect_hailo_arch_try_def two_device_run)

section \<open>Properties of the caps accessor\<close>

lemma get_caps_from_pad_no_caps:
  "get_current_caps pad = None \<Longrightarrow> get_caps_from_pad pad = PyTuple [PyNone, PyNone, PyNone]"
  by (simp add: get_caps_from_pad_def)

lemma get_caps_from_pad_structure:
  "get_current_caps pad = Some c \<Longrightarrow>
     get_caps_from_pad pad =
       PyTuple [get_value (structure0 c) ''format'', get_value (structure0 c) ''width'',
                get_value (structure0 c) ''height'']"
  by (simp add: get_caps_from_pad_def get_structure_def)

lemma get_caps_from_pad_rgb_pad:
  "get_caps_from_pad rgb_pad = PyTuple [PyStr ''RGB'', PyInt 4, PyInt 2]"
  by (simp add: rgb_pad_def get_caps_from_pad_def get_current_caps_def get_structure_def
      get_value_def)

text \<open>
  Claim C8. For every pad \<open>get_caps_from_pad\<close> returns a 3-tuple (format, width,
  height), and when no caps are negotiated on the pad all three components are
  \<open>None\<close>.
\<close>

theorem get_caps_from_pad_triple:
  "\<exists>f w h. get_caps_from_pad pad = PyTuple [f, w, h]
     \<and> (get_current_caps pad = None \<longrightarrow> f = PyNone \<and> w = PyNone \<and> h = PyNone)"
proof (cases "get_current_caps pad")
  case None
  then show ?thesis by (simp add: get_caps_from_pad_no_caps)
next
  case (Some c)
  then show ?thesis by (simp add: get_caps_from_pad_structure)
qed

text \<open>
  A pad without caps and a pad negotiated to RGB 4x2.
\<close>

theorem get_caps_from_pad_triple_witness:
  "get_current_caps no_caps_pad = None
   \<and> get_caps_from_pad no_caps_pad = PyTuple [PyNone, PyNone, PyNone]
   \<and> get_caps_from_pad rgb_pad = PyTuple [PyStr ''RGB'', PyInt 4, PyInt 2]"
proof -
  have n: "get_current_caps no_caps_pad = None"
    by (simp add: no_caps_pad_def get_current_caps_def)
  from get_caps_from_pad_triple [of no_caps_pad] n
  have "get_caps_from_pad no_caps_pad = PyTuple [PyNone, PyNone, PyNone]" by auto
  moreover from get_caps_from_pad_triple [of rgb_pad]
  have "get_caps_from_pad rgb_pad = PyTuple [PyStr ''RGB'', PyInt 4, PyInt 2]"
    by (simp add: get_caps_from_pad_rgb_pad)
  ultimately show ?thesis using n by simp
qed

end
